theory Spec2Isabelle
  imports Complex_Main
begin

section \<open>The environment of the scheduler\<close>

text \<open>
  The scheduler of \<^verbatim>\<open>automat.py\<close> calls code it does not own: the bound action of a
  task, \<^verbatim>\<open>time.time()\<close> and \<^verbatim>\<open>time.sleep(1)\<close>. What such a call can do to its
  caller is one of three things. It returns; it raises an exception derived from
  \<^verbatim>\<open>Exception\<close>, of which the code only reads \<^verbatim>\<open>str(e)\<close>; or it raises an
  exception derived from \<^verbatim>\<open>BaseException\<close> only, which \<^verbatim>\<open>except Exception\<close>
  does not catch. Of the latter kind \<^verbatim>\<open>KeyboardInterrupt\<close> is caught by
  \<^verbatim>\<open>Agent.run\<close>; \<^verbatim>\<open>SystemExit\<close> stands for all the others.
\<close>

datatype base_exception = KeyboardInterrupt | SystemExit

datatype outcome = Returns | Raises string | Signals base_exception

text \<open>
  The store that foreign code reads and writes. \<open>clock\<close> is the value
  \<^verbatim>\<open>time.time()\<close> returns: a timestamp is the real number that a finite double
  denotes, and arithmetic on timestamps is rounded as the doubles' is (see
  \<open>float_sub\<close> below). \<open>running\<close> is the attribute
  \<^verbatim>\<open>Agent.running\<close>: it is the one attribute of the agent that code outside
  \<^verbatim>\<open>Agent.run\<close> writes while the loop is active (\<^verbatim>\<open>stop()\<close>, called from an action, a
  signal handler or another thread), so it lives where an action can reach it.
  \<open>ext\<close> is everything else an action touches. The fields of a task are not in the
  store: an action is taken not to write the record it is bound to.
\<close>

record 'e world =
  clock :: real
  running :: bool
  ext :: 'e

type_synonym 'e callable = "'e world \<Rightarrow> outcome \<times> 'e world"

text \<open>
  \<open>isoformat\<close> renders a timestamp as \<^verbatim>\<open>datetime.fromtimestamp(t).isoformat()\<close> does
  (\<^verbatim>\<open>datetime.now()\<close> is the same rendering of the current clock); \<open>sleep\<close> is
  \<^verbatim>\<open>time.sleep(1)\<close>, which returns or is cut short by a signal.
\<close>

record 'e env =
  isoformat :: "real \<Rightarrow> string"
  sleep :: "'e world \<Rightarrow> base_exception option \<times> 'e world"

section \<open>Task\<close>

record 'e task =
  name :: string
  action :: "'e callable"
  interval :: int
  enabled :: bool
  last_run :: "real option"
  run_count :: int
  status :: string

text \<open>\<^verbatim>\<open>Task.__init__\<close>; the defaults of the source are \<open>interval = 0\<close> and \<open>enabled = True\<close>.\<close>

definition Task :: "string \<Rightarrow> 'e callable \<Rightarrow> int \<Rightarrow> bool \<Rightarrow> 'e task" where
  "Task n act iv en =
     \<lparr>name = n, action = act, interval = iv, enabled = en,
      last_run = None, run_count = 0, status = ''pending''\<rparr>"

text \<open>
  The float arithmetic of line 46, \<^verbatim>\<open>(time.time() - self.last_run) >= self.interval\<close>.
  Python's float is the IEEE 754 binary64 format: 53 significant bits, exponents from
  \<open>-1022\<close> to \<open>1023\<close>, results rounded to the nearest representable value with
  ties going to the even significand. \<open>pow2 e\<close> is \<open>2\<close> to the power \<open>e\<close>.
\<close>

definition pow2 :: "int \<Rightarrow> real" where
  "pow2 e = (if 0 \<le> e then 2 ^ nat e else 1 / 2 ^ nat (- e))"

text \<open>
  The exponent of the binade that holds \<open>x\<close>: the \<open>e\<close> with
  \<open>pow2 e \<le> \<bar>x\<bar> < pow2 (e + 1)\<close>, searched upwards from \<open>0\<close> when \<open>\<bar>x\<bar>\<close> is at
  least \<open>1\<close> and downwards from \<open>-1\<close> otherwise, and kept between \<open>-1022\<close>
  (below it the doubles are subnormal and equally spaced) and \<open>1023\<close>.
\<close>

function binade_up :: "int \<Rightarrow> real \<Rightarrow> int" where
  "binade_up e x = (if 1023 \<le> e \<or> \<bar>x\<bar> < pow2 (e + 1) then e else binade_up (e + 1) x)"
  by pat_completeness auto
termination
  by (relation "measure (\<lambda>(e, x). nat (1023 - e))") auto

function binade_down :: "int \<Rightarrow> real \<Rightarrow> int" where
  "binade_down e x = (if e \<le> - 1022 \<or> pow2 e \<le> \<bar>x\<bar> then e else binade_down (e - 1) x)"
  by pat_completeness auto
termination
  by (relation "measure (\<lambda>(e, x). nat (e + 1022))") auto

definition binade :: "real \<Rightarrow> int" where
  "binade x = (if 1 \<le> \<bar>x\<bar> then binade_up 0 x else binade_down (- 1) x)"

text \<open>The distance between neighbouring doubles in the binade of \<open>x\<close>.\<close>

definition quantum :: "real \<Rightarrow> real" where
  "quantum x = pow2 (binade x - 52)"

definition round_half_even :: "real \<Rightarrow> int" where
  "round_half_even x =
     (let f = \<lfloor>x\<rfloor>; d = x - real_of_int f
      in if d < 1 / 2 then f else if 1 / 2 < d then f + 1 else if even f then f else f + 1)"

text \<open>
  The difference of two finite doubles as the machine computes it: the exact difference
  rounded to a multiple of the quantum, or an infinity when the exact difference is at
  least half a quantum beyond the largest double, \<open>2 ^ 1024 - 2 ^ 971\<close>. No NaN arises
  from finite operands.
\<close>

datatype float_result = Finite real | PlusInf | MinusInf

definition float_sub :: "real \<Rightarrow> real \<Rightarrow> float_result" where
  "float_sub x y =
     (let d = x - y
      in if 2 ^ 1024 - 2 ^ 970 \<le> d then PlusInf
         else if d \<le> - (2 ^ 1024 - 2 ^ 970) then MinusInf
         else Finite (quantum d * real_of_int (round_half_even (d / quantum d))))"

text \<open>
  \<^verbatim>\<open>>=\<close> between a float and an \<^verbatim>\<open>int\<close>: Python compares the two values exactly,
  whatever the size of the integer.
\<close>

definition float_ge_int :: "float_result \<Rightarrow> int \<Rightarrow> bool" where
  "float_ge_int r n =
     (case r of Finite v \<Rightarrow> real_of_int n \<le> v | PlusInf \<Rightarrow> True | MinusInf \<Rightarrow> False)"

definition should_run :: "'e task \<Rightarrow> 'e world \<Rightarrow> bool" where
  "should_run t w =
     (if \<not> enabled t then False
      else case last_run t of
        None \<Rightarrow> True
      | Some l \<Rightarrow>
          if interval t = 0 then False
          else float_ge_int (float_sub (clock w) l) (interval t))"

text \<open>The dictionary \<^verbatim>\<open>execute\<close> returns, one field per key.\<close>

record result =
  res_task :: string
  res_timestamp :: string
  res_status :: string
  res_message :: "string option"
  res_error :: "string option"

text \<open>Python's \<^verbatim>\<open>str\<close> of an integer, for the f-string of the success message.\<close>

definition digit_char :: "nat \<Rightarrow> char" where
  "digit_char d = ''0123456789'' ! d"

function str_nat :: "nat \<Rightarrow> string" where
  "str_nat n = (if n < 10 then [digit_char n] else str_nat (n div 10) @ [digit_char (n mod 10)])"
  by pat_completeness auto
termination
  by (relation "measure id") auto

definition str_int :: "int \<Rightarrow> string" where
  "str_int i = (if i < 0 then CHR ''-'' # str_nat (nat (- i)) else str_nat (nat i))"

text \<open>
  \<^verbatim>\<open>Task.execute\<close>. The result is \<open>Inr\<close> of the dictionary when the method returns and
  \<open>Inl\<close> of the exception when the action raised one that \<^verbatim>\<open>except Exception\<close> lets
  through; the record and the store are returned as the method leaves them in either
  case. Logging is left out.
\<close>

definition execute ::
  "'e env \<Rightarrow> 'e task \<Rightarrow> 'e world \<Rightarrow> (base_exception + result) \<times> 'e task \<times> 'e world" where
  "execute E t w =
     (let result = \<lparr>res_task = name t, res_timestamp = isoformat E (clock w),
                    res_status = ''success'', res_message = None, res_error = None\<rparr>;
          t1 = t\<lparr>status := ''running''\<rparr>
      in case action t1 w of
           (Returns, w') \<Rightarrow>
             (let t2 = t1\<lparr>last_run := Some (clock w')\<rparr>;
                  t3 = t2\<lparr>run_count := run_count t2 + 1\<rparr>;
                  t4 = t3\<lparr>status := ''completed''\<rparr>
              in (Inr (result\<lparr>res_message :=
                         Some (''Task completed successfully (run #'' @ str_int (run_count t4) @ '')'')\<rparr>),
                  t4, w'))
         | (Raises msg, w') \<Rightarrow>
             (Inr (result\<lparr>res_status := ''failed'', res_error := Some msg\<rparr>),
              t1\<lparr>status := ''failed''\<rparr>, w')
         | (Signals b, w') \<Rightarrow> (Inl b, t1, w'))"

text \<open>
  A caller that invokes \<^verbatim>\<open>execute\<close> \<open>n\<close> times in a row on one record, keeping what
  each call gave back (a returned dictionary or a caught exception), oldest first.
\<close>

fun execute_times ::
  "nat \<Rightarrow> 'e env \<Rightarrow> 'e task \<Rightarrow> 'e world \<Rightarrow> (base_exception + result) list \<times> 'e task \<times> 'e world" where
  "execute_times 0 E t w = ([], t, w)"
| "execute_times (Suc n) E t w =
     (case execute E t w of
        (r, t', w') \<Rightarrow> (case execute_times n E t' w' of (rs, t'', w'') \<Rightarrow> (r # rs, t'', w'')))"

definition succeeded :: "base_exception + result \<Rightarrow> bool" where
  "succeeded r = (case r of Inl b \<Rightarrow> False | Inr d \<Rightarrow> res_status d = ''success'')"

section \<open>Agent\<close>

text \<open>
  The attributes \<^verbatim>\<open>config\<close> and \<^verbatim>\<open>logger\<close> are read by no operation below and are
  left out; \<^verbatim>\<open>running\<close> is in the store.
\<close>

record 'e agent =
  agent_name :: string
  tasks :: "'e task list"

definition Agent :: "string \<Rightarrow> 'e world \<Rightarrow> 'e agent \<times> 'e world" where
  "Agent n w = (\<lparr>agent_name = n, tasks = []\<rparr>, w\<lparr>running := False\<rparr>)"

definition add_task :: "string \<Rightarrow> 'e callable \<Rightarrow> int \<Rightarrow> bool \<Rightarrow> 'e agent \<Rightarrow> 'e agent" where
  "add_task n act iv en a = a\<lparr>tasks := tasks a @ [Task n act iv en]\<rparr>"

text \<open>\<^verbatim>\<open>list.pop(i)\<close> at an index in range, as \<^verbatim>\<open>remove_task\<close> calls it.\<close>

definition pop :: "nat \<Rightarrow> 'a list \<Rightarrow> 'a list" where
  "pop i xs = take i xs @ drop (Suc i) xs"

text \<open>The loop of \<^verbatim>\<open>remove_task\<close> over \<^verbatim>\<open>enumerate(self.tasks)\<close>, from index \<open>i\<close> on.\<close>

function remove_task_from :: "nat \<Rightarrow> string \<Rightarrow> 'e agent \<Rightarrow> bool \<times> 'e agent" where
  "remove_task_from i n a =
     (if i < length (tasks a) then
        (if name (tasks a ! i) = n then (True, a\<lparr>tasks := pop i (tasks a)\<rparr>)
         else remove_task_from (Suc i) n a)
      else (False, a))"
  by pat_completeness auto
termination
  by (relation "measure (\<lambda>(i, n, a). length (tasks a) - i)") auto

definition remove_task :: "string \<Rightarrow> 'e agent \<Rightarrow> bool \<times> 'e agent" where
  "remove_task n a = remove_task_from 0 n a"

text \<open>
  One dictionary of \<^verbatim>\<open>get_task_status\<close>. The source tests \<^verbatim>\<open>task.last_run\<close> for
  truth, so a timestamp of \<open>0.0\<close> is reported as \<^verbatim>\<open>None\<close> like a missing one.
\<close>

record snapshot =
  snap_name :: string
  snap_status :: string
  snap_enabled :: bool
  snap_interval :: int
  snap_run_count :: int
  snap_last_run :: "string option"

definition task_snapshot :: "'e env \<Rightarrow> 'e task \<Rightarrow> snapshot" where
  "task_snapshot E t =
     \<lparr>snap_name = name t, snap_status = status t, snap_enabled = enabled t,
      snap_interval = interval t, snap_run_count = run_count t,
      snap_last_run =
        (case last_run t of
           None \<Rightarrow> None
         | Some l \<Rightarrow> if l \<noteq> 0 then Some (isoformat E l) else None)\<rparr>"

text \<open>
  \<^verbatim>\<open>get_task_status\<close> is a list comprehension over \<^verbatim>\<open>self.tasks\<close>; the agent is
  handed back with the list so that what the call leaves behind can be stated.
\<close>

definition get_task_status :: "'e env \<Rightarrow> 'e agent \<Rightarrow> snapshot list \<times> 'e agent" where
  "get_task_status E a = (map (task_snapshot E) (tasks a), a)"

text \<open>
  The loop of \<^verbatim>\<open>run_once\<close>. An exception that leaves \<^verbatim>\<open>execute\<close> leaves
  \<^verbatim>\<open>run_once\<close> too: the results gathered so far are lost, the records already
  executed keep their changes.
\<close>

fun run_once_sweep ::
  "'e env \<Rightarrow> 'e task list \<Rightarrow> 'e world \<Rightarrow> (base_exception + result list) \<times> 'e task list \<times> 'e world" where
  "run_once_sweep E [] w = (Inr [], [], w)"
| "run_once_sweep E (t # ts) w =
     (if enabled t \<and> last_run t = None then
        (case execute E t w of
           (Inl b, t', w') \<Rightarrow> (Inl b, t' # ts, w')
         | (Inr r, t', w') \<Rightarrow>
             (case run_once_sweep E ts w' of
                (Inl b, ts', w'') \<Rightarrow> (Inl b, t' # ts', w'')
              | (Inr rs, ts', w'') \<Rightarrow> (Inr (r # rs), t' # ts', w'')))
      else
        (case run_once_sweep E ts w of (x, ts', w') \<Rightarrow> (x, t # ts', w')))"




text \<open>The inner \<^verbatim>\<open>for\<close> loop of \<^verbatim>\<open>run\<close>; the dictionaries are dropped there.\<close>

fun run_sweep ::
  "'e env \<Rightarrow> 'e task list \<Rightarrow> 'e world \<Rightarrow> base_exception option \<times> 'e task list \<times> 'e world" where
  "run_sweep E [] w = (None, [], w)"
| "run_sweep E (t # ts) w =
     (if should_run t w then
        (case execute E t w of
           (Inl b, t', w') \<Rightarrow> (Some b, t' # ts, w')
         | (Inr r, t', w') \<Rightarrow>
             (case run_sweep E ts w' of (x, ts', w'') \<Rightarrow> (x, t' # ts', w'')))
      else
        (case run_sweep E ts w of (x, ts', w') \<Rightarrow> (x, t # ts', w')))"

text \<open>
  \<^verbatim>\<open>max_iterations and iteration >= max_iterations\<close>: \<^verbatim>\<open>None\<close> and \<open>0\<close> are both
  false in Python.
\<close>

definition limit_reached :: "int option \<Rightarrow> int \<Rightarrow> bool" where
  "limit_reached max_iterations iteration =
     (case max_iterations of None \<Rightarrow> False | Some m \<Rightarrow> m \<noteq> 0 \<and> iteration \<ge> m)"

text \<open>How the \<^verbatim>\<open>while\<close> loop of \<^verbatim>\<open>run\<close> was left.\<close>

datatype exit = Stopped | LimitReached | Raised base_exception

text \<open>
  The \<^verbatim>\<open>while\<close> loop of \<^verbatim>\<open>run\<close>. It need not end, so the value is \<open>None\<close> when it
  does not.
\<close>

partial_function (option) run_loop ::
  "'e env \<Rightarrow> int option \<Rightarrow> int \<Rightarrow> 'e agent \<Rightarrow> 'e world \<Rightarrow> (exit \<times> 'e agent \<times> 'e world) option" where
  "run_loop E max_iterations iteration a w =
     (if running w then
        (if limit_reached max_iterations iteration then Some (LimitReached, a, w)
         else
           (case run_sweep E (tasks a) w of
              (Some b, ts, w') \<Rightarrow> Some (Raised b, a\<lparr>tasks := ts\<rparr>, w')
            | (None, ts, w') \<Rightarrow>
                (case sleep E w' of
                   (Some b, w'') \<Rightarrow> Some (Raised b, a\<lparr>tasks := ts\<rparr>, w'')
                 | (None, w'') \<Rightarrow> run_loop E max_iterations (iteration + 1) (a\<lparr>tasks := ts\<rparr>) w'')))
      else Some (Stopped, a, w))"

text \<open>
  \<^verbatim>\<open>Agent.run\<close>: the flag is set, the loop runs, and the \<^verbatim>\<open>finally\<close> clause clears the
  flag however the loop was left. \<open>Raised KeyboardInterrupt\<close> is caught, so the call
  returns; \<open>Raised SystemExit\<close> goes on to the caller after the \<^verbatim>\<open>finally\<close> clause.
\<close>

definition run ::
  "'e env \<Rightarrow> int option \<Rightarrow> 'e agent \<Rightarrow> 'e world \<Rightarrow> (exit \<times> 'e agent \<times> 'e world) option" where
  "run E max_iterations a w =
     (case run_loop E max_iterations 0 a (w\<lparr>running := True\<rparr>) of
        None \<Rightarrow> None
      | Some (x, a', w') \<Rightarrow> Some (x, a', w'\<lparr>running := False\<rparr>))"

definition stop :: "'e world \<Rightarrow> 'e world" where
  "stop w = w\<lparr>running := False\<rparr>"

section \<open>Concrete environments and records\<close>

text \<open>
  A store with nothing in it beside the clock and the flag, a sleep that always runs its
  second to the end, and the two actions of the tests: one that returns and one that
  raises \<^verbatim>\<open>ValueError("boom")\<close>.
\<close>

definition demo_env :: "unit env" where
  "demo_env = \<lparr>isoformat = (\<lambda>t. ''T''), sleep = (\<lambda>w. (None, w\<lparr>clock := clock w + 1\<rparr>))\<rparr>"

definition succeeds :: "unit callable" where
  "succeeds w = (Returns, w)"

definition always_fails :: "unit callable" where
  "always_fails w = (Raises ''boom'', w)"

definition w0 :: "unit world" where
  "w0 = \<lparr>clock = 100, running = False, ext = ()\<rparr>"

text \<open>An action that calls \<^verbatim>\<open>agent.stop()\<close> and returns.\<close>

definition stops :: "unit callable" where
  "stops w = (Returns, stop w)"

text \<open>A sleep that is cut short by Ctrl-C.\<close>

definition interrupted_env :: "unit env" where
  "interrupted_env = \<lparr>isoformat = (\<lambda>t. ''T''), sleep = (\<lambda>w. (Some KeyboardInterrupt, w))\<rparr>"

text \<open>Agents: two records share the name \<open>a\<close> in the first; the second has one record that
  has run and one that is disabled; the third is the workflow of the integration test with
  a failing step; the last two have a single record each.\<close>

definition three_tasks :: "unit agent" where
  "three_tasks =
     add_task ''a'' always_fails 5 False
       (add_task ''b'' succeeds 0 True
         (add_task ''a'' succeeds 0 True (fst (Agent ''demo'' w0))))"

definition polled_agent :: "unit agent" where
  "polled_agent =
     \<lparr>agent_name = ''demo'',
      tasks = [(Task ''a'' succeeds 5 True)\<lparr>last_run := Some 95, run_count := 1, status := ''completed''\<rparr>,
               Task ''b'' always_fails 0 False]\<rparr>"


definition counter_agent :: "unit agent" where
  "counter_agent = add_task ''counter'' succeeds 0 True (fst (Agent ''TestAgent'' w0))"

definition stopper_agent :: "unit agent" where
  "stopper_agent = add_task ''stopper'' stops 0 True (fst (Agent ''TestAgent'' w0))"

section \<open>What one call of execute does\<close>

lemma execute_Returns:
  "action t w = (Returns, w') \<Longrightarrow> execute E t w =
     (Inr \<lparr>res_task = name t, res_timestamp = isoformat E (clock w), res_status = ''success'',
           res_message = Some (''Task completed successfully (run #'' @ str_int (run_count t + 1) @ '')''),
           res_error = None\<rparr>,
      t\<lparr>last_run := Some (clock w'), run_count := run_count t + 1, status := ''completed''\<rparr>, w')"
  by (simp add: execute_def)

lemma execute_Raises:
  "action t w = (Raises msg, w') \<Longrightarrow> execute E t w =
     (Inr \<lparr>res_task = name t, res_timestamp = isoformat E (clock w), res_status = ''failed'',
           res_message = None, res_error = Some msg\<rparr>,
      t\<lparr>status := ''failed''\<rparr>, w')"
  by (simp add: execute_def)

lemma execute_Signals:
  "action t w = (Signals b, w') \<Longrightarrow> execute E t w = (Inl b, t\<lparr>status := ''running''\<rparr>, w')"
  by (simp add: execute_def)

lemmas execute_outcome = execute_Returns execute_Raises execute_Signals

lemma action_cases:
  obtains (Returns) w' where "action t w = (Returns, w')"
  | (Raises) msg w' where "action t w = (Raises msg, w')"
  | (Signals) b w' where "action t w = (Signals b, w')"
  by (cases "action t w"; rename_tac oc w'; case_tac oc) auto

lemma succeeded_execute: "succeeded (fst (execute E t w)) = (fst (action t w) = Returns)"
  by (cases t w rule: action_cases) (simp_all add: execute_outcome succeeded_def)

lemma run_count_execute:
  "run_count (fst (snd (execute E t w))) =
     run_count t + (if succeeded (fst (execute E t w)) then 1 else 0)"
  by (cases t w rule: action_cases) (simp_all add: execute_outcome succeeded_def)

lemma status_execute:
  "status (fst (snd (execute E t w))) =
     (case fst (action t w) of
        Returns \<Rightarrow> ''completed'' | Raises m \<Rightarrow> ''failed'' | Signals b \<Rightarrow> ''running'')"
  by (cases t w rule: action_cases) (simp_all add: execute_outcome)

lemma execute_world: "snd (snd (execute E t w)) = snd (action t w)"
  by (cases t w rule: action_cases) (simp_all add: execute_outcome)

lemma execute_enabled:
  "execute E (t\<lparr>enabled := b\<rparr>) w =
     (case execute E t w of (r, t', w') \<Rightarrow> (r, t'\<lparr>enabled := b\<rparr>, w'))"
  by (cases t w rule: action_cases) (simp_all add: execute_outcome)

lemma execute_times_Suc:
  "execute_times (Suc n) E t w =
     (fst (execute E t w) #
        fst (execute_times n E (fst (snd (execute E t w))) (snd (snd (execute E t w)))),
      snd (execute_times n E (fst (snd (execute E t w))) (snd (snd (execute E t w)))))"
  by (simp split: prod.splits)

lemma length_execute_times: "length (fst (execute_times n E t w)) = n"
  by (induction n arbitrary: t w) (simp_all add: execute_times_Suc del: execute_times.simps(2))

lemma run_count_execute_times:
  "run_count (fst (snd (execute_times n E t w))) =
     run_count t + int (length (filter succeeded (fst (execute_times n E t w))))"
proof (induction n arbitrary: t w)
  case 0
  show ?case by simp
next
  case (Suc n)
  let ?t' = "fst (snd (execute E t w))" and ?w' = "snd (snd (execute E t w))"
  have "run_count (fst (snd (execute_times n E ?t' ?w'))) =
          run_count ?t' + int (length (filter succeeded (fst (execute_times n E ?t' ?w'))))"
    by (rule Suc.IH)
  moreover have "run_count ?t' = run_count t + (if succeeded (fst (execute E t w)) then 1 else 0)"
    by (rule run_count_execute)
  ultimately show ?case
    by (simp add: execute_times_Suc del: execute_times.simps(2))
qed

lemma status_execute_times:
  "status (fst (snd (execute_times (Suc n) E t w))) \<in> {''running'', ''completed'', ''failed''}"
proof (induction n arbitrary: t w)
  case 0
  show ?case using status_execute[of E t w] by (auto split: prod.splits outcome.splits)
next
  case (Suc n)
  show ?case using Suc.IH[of "fst (snd (execute E t w))" "snd (snd (execute E t w))"]
    by (simp add: execute_times_Suc[of "Suc n"] del: execute_times.simps(2))
qed

lemma sweeps_skip_disabled:
  "\<forall>t\<in>set ts. \<not> enabled t \<Longrightarrow>
     run_once_sweep E ts w = (Inr [], ts, w) \<and> run_sweep E ts w = (None, ts, w)"
  by (induction ts) (auto simp: should_run_def)

section \<open>Rounded differences\<close>

lemma pow2_powr: "pow2 e = 2 powr real_of_int e"
proof (cases "0 \<le> e")
  case True
  then have "real_of_int e = real (nat e)" by simp
  then have "2 powr real_of_int e = 2 ^ nat e" by (simp only: powr_realpow)
  with True show ?thesis by (simp add: pow2_def)
next
  case False
  then have "real_of_int e = - real (nat (- e))" by simp
  then have "2 powr real_of_int e = 1 / 2 powr real (nat (- e))"
    by (simp only: powr_minus_divide)
  also have "2 powr real (nat (- e)) = 2 ^ nat (- e)"
    by (rule powr_realpow) simp
  finally show ?thesis using False by (simp add: pow2_def)
qed

lemma pow2_pos: "0 < pow2 e"
  by (simp add: pow2_powr)

lemma pow2_mono: "a \<le> b \<Longrightarrow> pow2 a \<le> pow2 b"
  by (simp add: pow2_powr)

lemma binade_up_eq:
  "e \<le> k \<Longrightarrow> k \<le> 1023 \<Longrightarrow> pow2 k \<le> \<bar>x\<bar> \<Longrightarrow> \<bar>x\<bar> < pow2 (k + 1) \<Longrightarrow> binade_up e x = k"
proof (induction e x rule: binade_up.induct)
  case (1 e x)
  show ?case
  proof (cases "e = k")
    case True
    with "1.prems" show ?thesis by (subst binade_up.simps) simp
  next
    case False
    with "1.prems" have lt: "e + 1 \<le> k" by simp
    from pow2_mono [OF lt] "1.prems" have n: "\<not> \<bar>x\<bar> < pow2 (e + 1)" by simp
    from lt "1.prems" have m: "\<not> 1023 \<le> e" by simp
    from "1.IH" n m "1.prems" lt have "binade_up (e + 1) x = k" by simp
    with n m show ?thesis by (subst binade_up.simps) simp
  qed
qed

lemma binade_down_eq:
  "- 1022 \<le> k \<Longrightarrow> k \<le> e \<Longrightarrow> pow2 k \<le> \<bar>x\<bar> \<Longrightarrow> \<bar>x\<bar> < pow2 (k + 1) \<Longrightarrow> binade_down e x = k"
proof (induction e x rule: binade_down.induct)
  case (1 e x)
  show ?case
  proof (cases "e = k")
    case True
    with "1.prems" show ?thesis by (subst binade_down.simps) simp
  next
    case False
    with "1.prems" have lt: "k + 1 \<le> e" by simp
    from pow2_mono [OF lt] "1.prems" have n: "\<not> pow2 e \<le> \<bar>x\<bar>" by simp
    from lt "1.prems" have m: "\<not> e \<le> - 1022" by simp
    from "1.IH" n m "1.prems" lt have "binade_down (e - 1) x = k" by simp
    with n m show ?thesis by (subst binade_down.simps) simp
  qed
qed

lemma binade_eq:
  assumes "- 1022 \<le> k" and "k \<le> 1023" and "pow2 k \<le> \<bar>x\<bar>" and "\<bar>x\<bar> < pow2 (k + 1)"
  shows "binade x = k"
proof (cases "1 \<le> \<bar>x\<bar>")
  case True
  have "0 \<le> k"
  proof (rule ccontr)
    assume "\<not> 0 \<le> k"
    then have "k + 1 \<le> 0" by simp
    from pow2_mono [OF this] have "pow2 (k + 1) \<le> 1" by (simp add: pow2_def)
    with assms(4) True show False by simp
  qed
  from True have "binade x = binade_up 0 x"
    by (simp only: binade_def if_True)
  also from assms \<open>0 \<le> k\<close> have "binade_up 0 x = k"
    by (intro binade_up_eq)
  finally show ?thesis .
next
  case False
  have "k \<le> - 1"
  proof (rule ccontr)
    assume "\<not> k \<le> - 1"
    then have "0 \<le> k" by simp
    from pow2_mono [OF this] have "1 \<le> pow2 k" by (simp add: pow2_def)
    with assms(3) False show False by simp
  qed
  from False have "binade x = binade_down (- 1) x"
    by (simp only: binade_def if_False)
  also from assms \<open>k \<le> - 1\<close> have "binade_down (- 1) x = k"
    by (intro binade_down_eq)
  finally show ?thesis .
qed

lemma round_half_even_error: "\<bar>real_of_int (round_half_even x) - x\<bar> \<le> 1 / 2"
  unfolding round_half_even_def Let_def by (auto simp: abs_le_iff)

lemma quantum_pos: "0 < quantum x"
  by (simp add: quantum_def pow2_pos)

lemma float_sub_error:
  "float_sub x y = Finite v \<Longrightarrow> \<bar>v - (x - y)\<bar> \<le> quantum (x - y) / 2"
proof -
  assume "float_sub x y = Finite v"
  then have v: "v = quantum (x - y) * real_of_int (round_half_even ((x - y) / quantum (x - y)))"
    by (auto simp: float_sub_def Let_def split: if_splits)
  let ?q = "quantum (x - y)"
  let ?r = "real_of_int (round_half_even ((x - y) / ?q))"
  have "\<bar>?r - (x - y) / ?q\<bar> \<le> 1 / 2" by (rule round_half_even_error)
  then have "?q * \<bar>?r - (x - y) / ?q\<bar> \<le> ?q * (1 / 2)"
    using quantum_pos [of "x - y"] by (simp only: mult_le_cancel_left_pos)
  moreover have "?q * \<bar>?r - (x - y) / ?q\<bar> = \<bar>?q * ?r - (x - y)\<bar>"
  proof -
    from quantum_pos [of "x - y"] have "?q * \<bar>?r - (x - y) / ?q\<bar> = \<bar>?q * (?r - (x - y) / ?q)\<bar>"
      by (simp add: abs_mult)
    also from quantum_pos [of "x - y"] have "?q * (?r - (x - y) / ?q) = ?q * ?r - (x - y)"
      by (simp only: right_diff_distrib) simp
    finally show ?thesis .
  qed
  ultimately show ?thesis using v by simp
qed


lemma float_sub_5_tiny: "float_sub 5 (1 / 2 ^ 60) = Finite 5"
  by (simp add: float_sub_def quantum_def binade_def pow2_def round_half_even_def Let_def)

lemma float_sub_tenths:
  "float_sub (5742089524897382 / 2 ^ 50) (3602879701896397 / 2 ^ 55) = Finite 5"
  by (simp add: float_sub_def quantum_def binade_def pow2_def round_half_even_def Let_def)

lemma float_sub_100_95: "float_sub 100 95 = Finite 5"
  by (simp add: float_sub_def quantum_def binade_def pow2_def round_half_even_def Let_def)

lemma float_sub_100_96: "float_sub 100 96 = Finite 4"
  by (simp add: float_sub_def quantum_def binade_def pow2_def round_half_even_def Let_def)

section \<open>Readiness\<close>

text \<open>
  C4, as the spec states it, fails in its last case. With \<^verbatim>\<open>last_run\<close> at \<open>2 ^ -60\<close>,
  the clock at \<open>5.0\<close> and an interval of \<open>5\<close>, the elapsed time is less than the
  interval, yet \<^verbatim>\<open>should_run\<close> answers \<^verbatim>\<open>True\<close>: the float difference rounds up to
  \<open>5.0\<close>. The same happens with \<^verbatim>\<open>last_run\<close> at the double \<open>0.1\<close> and the clock at
  the double \<open>5.1\<close>.
\<close>

theorem should_run_elapsed_counterexample:
  "should_run ((Task ''t'' succeeds 5 True)\<lparr>last_run := Some (1 / 2 ^ 60)\<rparr>) (w0\<lparr>clock := 5\<rparr>) = True \<and>
   \<not> real_of_int 5 \<le> clock (w0\<lparr>clock := 5\<rparr>) - 1 / 2 ^ 60 \<and>
   should_run ((Task ''t'' succeeds 5 True)\<lparr>last_run := Some (3602879701896397 / 2 ^ 55)\<rparr>)
     (w0\<lparr>clock := 5742089524897382 / 2 ^ 50\<rparr>) = True \<and>
   \<not> real_of_int 5 \<le>
       clock (w0\<lparr>clock := 5742089524897382 / 2 ^ 50\<rparr>) - 3602879701896397 / 2 ^ 55"
  by (simp add: should_run_def Task_def w0_def float_ge_int_def float_sub_def quantum_def
        binade_def pow2_def round_half_even_def Let_def)

text \<open>
  C4, amended. \<^verbatim>\<open>should_run\<close> is false for a disabled record; otherwise true when the
  record has no \<^verbatim>\<open>last_run\<close>; otherwise false when the interval is \<open>0\<close>; otherwise
  true exactly when the difference of the clock and \<^verbatim>\<open>last_run\<close>, as computed in double
  precision, is at least the interval. The computed difference is within half a quantum
  of the elapsed time, and where it is the elapsed time itself the answer is whether the
  elapsed time is at least the interval.
\<close>

theorem should_run_cases:
  "(\<not> enabled t \<longrightarrow> should_run t w = False) \<and>
   (enabled t \<and> last_run t = None \<longrightarrow> should_run t w = True) \<and>
   (enabled t \<and> last_run t \<noteq> None \<and> interval t = 0 \<longrightarrow> should_run t w = False) \<and>
   (enabled t \<and> interval t \<noteq> 0 \<longrightarrow>
      (\<forall>l. last_run t = Some l \<longrightarrow>
         should_run t w = float_ge_int (float_sub (clock w) l) (interval t))) \<and>
   (float_sub x y = Finite v \<longrightarrow> \<bar>v - (x - y)\<bar> \<le> quantum (x - y) / 2) \<and>
   (enabled t \<and> interval t \<noteq> 0 \<and> last_run t = Some k \<and>
    float_sub (clock w) k = Finite (clock w - k) \<longrightarrow>
      should_run t w = (real_of_int (interval t) \<le> clock w - k))"
  using float_sub_error [of x y v]
  by (auto simp: should_run_def float_ge_int_def split: option.splits)

theorem should_run_cases_witness:
  "should_run (Task ''t'' succeeds 0 False) w0 = False \<and>
   should_run (Task ''t'' succeeds 0 True) w0 = True \<and>
   should_run ((Task ''t'' succeeds 0 True)\<lparr>last_run := Some 100\<rparr>) w0 = False \<and>
   should_run ((Task ''t'' succeeds 5 True)\<lparr>last_run := Some 95\<rparr>) w0 = True \<and>
   should_run ((Task ''t'' succeeds 5 True)\<lparr>last_run := Some 96\<rparr>) w0 = False \<and>
   \<bar>5 - (5 - 1 / 2 ^ 60)\<bar> \<le> quantum (5 - 1 / 2 ^ 60) / 2"
proof -
  have 1: "should_run (Task ''t'' succeeds 0 False) w0 = False"
    using should_run_cases [where t = "Task ''t'' succeeds 0 False" and w = w0]
    by (simp add: Task_def)
  have 2: "should_run (Task ''t'' succeeds 0 True) w0 = True"
    using should_run_cases [where t = "Task ''t'' succeeds 0 True" and w = w0]
    by (simp add: Task_def)
  have 3: "should_run ((Task ''t'' succeeds 0 True)\<lparr>last_run := Some 100\<rparr>) w0 = False"
    using should_run_cases [where t = "(Task ''t'' succeeds 0 True)\<lparr>last_run := Some 100\<rparr>" and w = w0]
    by (simp add: Task_def)
  have 4: "should_run ((Task ''t'' succeeds 5 True)\<lparr>last_run := Some 95\<rparr>) w0 = True"
    using should_run_cases [where t = "(Task ''t'' succeeds 5 True)\<lparr>last_run := Some 95\<rparr>"
        and w = w0 and k = 95]
    by (simp add: Task_def w0_def float_sub_100_95 float_ge_int_def)
  have 5: "should_run ((Task ''t'' succeeds 5 True)\<lparr>last_run := Some 96\<rparr>) w0 = False"
    using should_run_cases [where t = "(Task ''t'' succeeds 5 True)\<lparr>last_run := Some 96\<rparr>"
        and w = w0, THEN conjunct2, THEN conjunct2, THEN conjunct2, THEN conjunct1]
    by (simp add: Task_def w0_def float_sub_100_96 float_ge_int_def)
  have 6: "\<bar>5 - (5 - 1 / 2 ^ 60)\<bar> \<le> quantum (5 - 1 / 2 ^ 60) / 2"
    using should_run_cases [where x = 5 and y = "1 / 2 ^ 60" and v = 5,
        THEN conjunct2, THEN conjunct2, THEN conjunct2, THEN conjunct2, THEN conjunct1, THEN mp,
        OF float_sub_5_tiny] .
  from 1 2 3 4 5 6 show ?thesis by (intro conjI)
qed

section \<open>The run counter\<close>

text \<open>
  C1, as the spec states it, fails: two calls of \<^verbatim>\<open>execute\<close> on a record whose action
  always raises leave \<^verbatim>\<open>run_count\<close> at \<open>0\<close>, not at \<open>2\<close>.
\<close>

theorem run_count_two_failures_counterexample:
  "run_count (fst (snd (execute_times 2 demo_env (Task ''t'' always_fails 0 True) w0))) = 0 \<and>
   run_count (fst (snd (execute_times 2 demo_env (Task ''t'' always_fails 0 True) w0))) \<noteq> 2"
  by (simp add: numeral_2_eq_2 execute_def Task_def always_fails_def)

text \<open>
  C1, amended. A call of \<^verbatim>\<open>execute\<close> counts as a success exactly when the action
  returned; it adds one to \<^verbatim>\<open>run_count\<close> when it is a success and leaves it alone
  otherwise. So after any number of calls \<^verbatim>\<open>run_count\<close> has grown by the number of
  successful calls among them, and on a record that was created with \<^verbatim>\<open>Task(...)\<close> it
  is that number.
\<close>

theorem run_count_counts_successes:
  "succeeded (fst (execute E t w)) = (fst (action t w) = Returns) \<and>
   run_count (fst (snd (execute E t w))) =
     run_count t + (if succeeded (fst (execute E t w)) then 1 else 0) \<and>
   length (fst (execute_times n E t w)) = n \<and>
   run_count (fst (snd (execute_times n E t w))) =
     run_count t + int (length (filter succeeded (fst (execute_times n E t w)))) \<and>
   run_count (fst (snd (execute_times n E (Task nm act iv en) w))) =
     int (length (filter succeeded (fst (execute_times n E (Task nm act iv en) w))))"
proof -
  have "run_count (fst (snd (execute_times n E (Task nm act iv en) w))) =
     run_count (Task nm act iv en) +
       int (length (filter succeeded (fst (execute_times n E (Task nm act iv en) w))))"
    by (rule run_count_execute_times)
  then have "run_count (fst (snd (execute_times n E (Task nm act iv en) w))) =
     int (length (filter succeeded (fst (execute_times n E (Task nm act iv en) w))))"
    by (simp add: Task_def)
  then show ?thesis
    by (simp only: succeeded_execute run_count_execute length_execute_times
          run_count_execute_times [symmetric] simp_thms)
qed

theorem run_count_counts_successes_witness:
  "filter succeeded (fst (execute_times 2 demo_env (Task ''t'' always_fails 0 True) w0)) = [] \<and>
   run_count (fst (snd (execute_times 2 demo_env (Task ''t'' always_fails 0 True) w0))) = 0 \<and>
   length (filter succeeded (fst (execute_times 3 demo_env (Task ''t'' succeeds 0 True) w0))) = 3 \<and>
   run_count (fst (snd (execute_times 3 demo_env (Task ''t'' succeeds 0 True) w0))) = 3"
proof -
  have f: "filter succeeded (fst (execute_times 2 demo_env (Task ''t'' always_fails 0 True) w0)) = []"
    by (simp add: numeral_2_eq_2 execute_def Task_def always_fails_def succeeded_def)
  have g: "length (filter succeeded (fst (execute_times 3 demo_env (Task ''t'' succeeds 0 True) w0))) = 3"
    by (simp add: numeral_3_eq_3 execute_def Task_def succeeds_def succeeded_def)
  from f run_count_counts_successes [where n = 2 and E = demo_env and nm = "''t''"
      and act = always_fails and iv = 0 and en = True and w = w0,
      THEN conjunct2, THEN conjunct2, THEN conjunct2, THEN conjunct2]
  have 1: "run_count (fst (snd (execute_times 2 demo_env (Task ''t'' always_fails 0 True) w0))) = 0"
    by simp
  from g run_count_counts_successes [where n = 3 and E = demo_env and nm = "''t''"
      and act = succeeds and iv = 0 and en = True and w = w0,
      THEN conjunct2, THEN conjunct2, THEN conjunct2, THEN conjunct2]
  have 2: "run_count (fst (snd (execute_times 3 demo_env (Task ''t'' succeeds 0 True) w0))) = 3"
    by simp
  from f g 1 2 show ?thesis by simp
qed

section \<open>Failure of the action\<close>

text \<open>
  C2. When the action raises an exception \<open>e\<close> derived from \<^verbatim>\<open>Exception\<close>,
  \<^verbatim>\<open>execute\<close> returns a dictionary with status \<open>failed\<close>, \<^verbatim>\<open>str(e)\<close> as error and no
  message; the record's status is \<open>failed\<close> and neither \<^verbatim>\<open>last_run\<close> nor any other
  field of it has changed. A record of interval \<open>0\<close> that was ready before the call is
  ready after it, whatever the clock shows then.
\<close>

theorem execute_contains_failure:
  assumes "action t w = (Raises msg, w')"
  shows "execute E t w =
           (Inr \<lparr>res_task = name t, res_timestamp = isoformat E (clock w),
                 res_status = ''failed'', res_message = None, res_error = Some msg\<rparr>,
            t\<lparr>status := ''failed''\<rparr>, w') \<and>
         status (fst (snd (execute E t w))) = ''failed'' \<and>
         last_run (fst (snd (execute E t w))) = last_run t \<and>
         (interval t = 0 \<and> should_run t w \<longrightarrow> (\<forall>w2. should_run (fst (snd (execute E t w))) w2))"
  using assms by (auto simp: execute_Raises should_run_def split: option.splits)

theorem execute_contains_failure_witness:
  "fst (execute demo_env (Task ''t'' always_fails 0 True) w0) =
     Inr \<lparr>res_task = ''t'', res_timestamp = ''T'',
          res_status = ''failed'', res_message = None, res_error = Some ''boom''\<rparr> \<and>
   last_run (fst (snd (execute demo_env (Task ''t'' always_fails 0 True) w0))) = None \<and>
   should_run (fst (snd (execute demo_env (Task ''t'' always_fails 0 True) w0))) w0"
proof -
  have a: "action (Task ''t'' always_fails 0 True) w0 = (Raises ''boom'', w0)"
    by (simp add: Task_def always_fails_def)
  have r: "interval (Task ''t'' always_fails 0 True) = 0 \<and> should_run (Task ''t'' always_fails 0 True) w0"
    by (simp add: Task_def should_run_def)
  note h = execute_contains_failure [OF a, of demo_env]
  from h have e: "fst (execute demo_env (Task ''t'' always_fails 0 True) w0) =
      Inr \<lparr>res_task = name (Task ''t'' always_fails 0 True :: unit task),
           res_timestamp = isoformat demo_env (clock w0),
           res_status = ''failed'', res_message = None, res_error = Some ''boom''\<rparr>"
    by simp
  from h have l: "last_run (fst (snd (execute demo_env (Task ''t'' always_fails 0 True) w0))) =
      last_run (Task ''t'' always_fails 0 True :: unit task)"
    by blast
  from h r have s: "should_run (fst (snd (execute demo_env (Task ''t'' always_fails 0 True) w0))) w0"
    by blast
  from e l s show ?thesis
    by (simp add: Task_def demo_env_def)
qed

section \<open>The enabled flag\<close>

text \<open>
  C9. \<^verbatim>\<open>execute\<close> does not read \<^verbatim>\<open>enabled\<close>: setting the flag before the call or
  after it gives the same result, record and store. The store after the call is the one
  that a single call of the action leaves, and on a disabled record whose action returns
  the call sets status, \<^verbatim>\<open>run_count\<close> and \<^verbatim>\<open>last_run\<close> as on any other. The flag
  is read by \<^verbatim>\<open>should_run\<close> and by the two sweeps, which pass over disabled records.
\<close>

theorem execute_ignores_enabled:
  "execute E (t\<lparr>enabled := b\<rparr>) w =
     (case execute E t w of (r, t', w') \<Rightarrow> (r, t'\<lparr>enabled := b\<rparr>, w')) \<and>
   snd (snd (execute E t w)) = snd (action t w) \<and>
   (\<not> enabled t \<and> fst (action t w) = Returns \<longrightarrow>
      status (fst (snd (execute E t w))) = ''completed'' \<and>
      run_count (fst (snd (execute E t w))) = run_count t + 1 \<and>
      last_run (fst (snd (execute E t w))) = Some (clock (snd (action t w)))) \<and>
   (\<not> enabled t \<and> (\<exists>m. fst (action t w) = Raises m) \<longrightarrow>
      status (fst (snd (execute E t w))) = ''failed'') \<and>
   (\<not> enabled t \<longrightarrow> \<not> should_run t w) \<and>
   ((\<forall>t\<in>set ts. \<not> enabled t) \<longrightarrow>
      run_once_sweep E ts w = (Inr [], ts, w) \<and> run_sweep E ts w = (None, ts, w))"
proof -
  have "\<not> enabled t \<and> fst (action t w) = Returns \<longrightarrow>
      status (fst (snd (execute E t w))) = ''completed'' \<and>
      run_count (fst (snd (execute E t w))) = run_count t + 1 \<and>
      last_run (fst (snd (execute E t w))) = Some (clock (snd (action t w)))"
    by (cases t w rule: action_cases) (simp_all add: execute_outcome)
  moreover have "\<not> enabled t \<and> (\<exists>m. fst (action t w) = Raises m) \<longrightarrow>
      status (fst (snd (execute E t w))) = ''failed''"
    by (cases t w rule: action_cases) (simp_all add: execute_outcome)
  moreover have "\<not> enabled t \<longrightarrow> \<not> should_run t w"
    by (simp add: should_run_def)
  ultimately show ?thesis
    using execute_enabled [where E = E and t = t and b = b and w = w]
      execute_world [where E = E and t = t and w = w]
      sweeps_skip_disabled [where E = E and ts = ts and w = w]
    by blast
qed

theorem execute_ignores_enabled_witness:
  "status (fst (snd (execute demo_env (Task ''t'' succeeds 0 False) w0))) = ''completed'' \<and>
   run_count (fst (snd (execute demo_env (Task ''t'' succeeds 0 False) w0))) = 1 \<and>
   last_run (fst (snd (execute demo_env (Task ''t'' succeeds 0 False) w0))) = Some 100 \<and>
   status (fst (snd (execute demo_env (Task ''t'' always_fails 0 False) w0))) = ''failed'' \<and>
   \<not> should_run (Task ''t'' succeeds 0 False) w0 \<and>
   run_once_sweep demo_env [Task ''t'' succeeds 0 False] w0 =
     (Inr [], [Task ''t'' succeeds 0 False], w0) \<and>
   run_sweep demo_env [Task ''t'' succeeds 0 False] w0 = (None, [Task ''t'' succeeds 0 False], w0)"
  using execute_ignores_enabled [where E = demo_env and t = "Task ''t'' succeeds 0 False"
          and b = False and w = w0 and ts = "[Task ''t'' succeeds 0 False]"]
    execute_ignores_enabled [where E = demo_env and t = "Task ''t'' always_fails 0 False"
          and b = False and w = w0 and ts = "[]"]
  by (simp add: Task_def succeeds_def always_fails_def w0_def)

section \<open>The status after execute\<close>

text \<open>
  C10. When \<^verbatim>\<open>execute\<close> returns, the status of the record is \<open>completed\<close> or
  \<open>failed\<close>. After one or more calls of \<^verbatim>\<open>execute\<close>, returned or not, the status
  is \<open>running\<close>, \<open>completed\<close> or \<open>failed\<close>, so it is not \<open>pending\<close>.
\<close>

theorem status_after_execute:
  "((\<exists>r. fst (execute E t w) = Inr r) \<longrightarrow>
      status (fst (snd (execute E t w))) = ''completed'' \<or>
      status (fst (snd (execute E t w))) = ''failed'') \<and>
   (0 < n \<longrightarrow>
      status (fst (snd (execute_times n E t w))) \<in> {''running'', ''completed'', ''failed''} \<and>
      status (fst (snd (execute_times n E t w))) \<noteq> ''pending'')"
proof -
  have "(\<exists>r. fst (execute E t w) = Inr r) \<longrightarrow>
      status (fst (snd (execute E t w))) = ''completed'' \<or>
      status (fst (snd (execute E t w))) = ''failed''"
    by (cases t w rule: action_cases) (simp_all add: execute_outcome)
  moreover have "0 < n \<longrightarrow>
      status (fst (snd (execute_times n E t w))) \<in> {''running'', ''completed'', ''failed''}"
    using status_execute_times [of "n - 1" E t w] by (cases n) simp_all
  ultimately show ?thesis by auto
qed

theorem status_after_execute_witness:
  "status (Task ''t'' always_fails 0 True) = ''pending'' \<and>
   status (fst (snd (execute demo_env (Task ''t'' always_fails 0 True) w0))) = ''failed'' \<and>
   status (fst (snd (execute_times 3 demo_env (Task ''t'' succeeds 0 True) w0))) \<noteq> ''pending''"
proof -
  have "\<exists>r. fst (execute demo_env (Task ''t'' always_fails 0 True) w0) = Inr r"
    by (simp add: execute_def Task_def always_fails_def)
  then show ?thesis
    using status_after_execute [where E = demo_env and t = "Task ''t'' always_fails 0 True"
            and w = w0 and n = 3]
      status_after_execute [where E = demo_env and t = "Task ''t'' succeeds 0 True"
            and w = w0 and n = 3]
      status_execute [of demo_env "Task ''t'' always_fails 0 True" w0]
    by (simp add: Task_def always_fails_def)
qed

section \<open>Removing a task\<close>

lemma remove_task_from_absent:
  "\<forall>j. i \<le> j \<and> j < length (tasks a) \<longrightarrow> name (tasks a ! j) \<noteq> n \<Longrightarrow>
     remove_task_from i n a = (False, a)"
proof (induction i n a rule: remove_task_from.induct)
  case (1 i n a)
  show ?case
  proof (cases "i < length (tasks a)")
    case True
    with "1.prems" have ne: "name (tasks a ! i) \<noteq> n" by simp
    from "1.prems" have "\<forall>j. Suc i \<le> j \<and> j < length (tasks a) \<longrightarrow> name (tasks a ! j) \<noteq> n"
      by simp
    with "1.IH" True ne have "remove_task_from (Suc i) n a = (False, a)" by simp
    with True ne show ?thesis by (subst remove_task_from.simps) simp
  next
    case False
    then show ?thesis by (subst remove_task_from.simps) simp
  qed
qed

lemma remove_task_from_first:
  "i \<le> k \<Longrightarrow> k < length (tasks a) \<Longrightarrow> name (tasks a ! k) = n \<Longrightarrow>
   \<forall>j. i \<le> j \<and> j < k \<longrightarrow> name (tasks a ! j) \<noteq> n \<Longrightarrow>
     remove_task_from i n a = (True, a\<lparr>tasks := pop k (tasks a)\<rparr>)"
proof (induction i n a rule: remove_task_from.induct)
  case (1 i n a)
  from "1.prems" have il: "i < length (tasks a)" by simp
  show ?case
  proof (cases "i = k")
    case True
    with "1.prems" il show ?thesis by (subst remove_task_from.simps) simp
  next
    case False
    with "1.prems" have lt: "i < k" by simp
    with "1.prems" have ne: "name (tasks a ! i) \<noteq> n" by simp
    from "1.prems" lt have "remove_task_from (Suc i) n a = (True, a\<lparr>tasks := pop k (tasks a)\<rparr>)"
      by (intro "1.IH" il ne) simp_all
    with il ne show ?thesis by (subst remove_task_from.simps) simp
  qed
qed

lemma first_index:
  "n \<in> name ` set ts \<Longrightarrow> \<exists>k<length ts. name (ts ! k) = n \<and> (\<forall>j<k. name (ts ! j) \<noteq> n)"
proof -
  assume "n \<in> name ` set ts"
  then obtain i where i: "i < length ts" "name (ts ! i) = n"
    by (auto simp: in_set_conv_nth)
  define k where "k = (LEAST i. i < length ts \<and> name (ts ! i) = n)"
  have k: "k < length ts \<and> name (ts ! k) = n"
    unfolding k_def by (rule LeastI [of _ i]) (use i in simp)
  have "\<forall>j<k. name (ts ! j) \<noteq> n"
  proof (intro allI impI)
    fix j assume "j < k"
    then have "\<not> (j < length ts \<and> name (ts ! j) = n)"
      unfolding k_def by (rule not_less_Least)
    with \<open>j < k\<close> k show "name (ts ! j) \<noteq> n" by simp
  qed
  with k show ?thesis by blast
qed

text \<open>
  C6. When no record has the name, \<^verbatim>\<open>remove_task\<close> returns \<^verbatim>\<open>False\<close> and the agent
  is as before. When some record has it, \<^verbatim>\<open>remove_task\<close> returns \<^verbatim>\<open>True\<close> and the
  registry loses the record at the least index \<open>k\<close> that carries the name: what is left
  is the records before \<open>k\<close> followed by those after \<open>k\<close>, in their order.
\<close>

theorem remove_task_first_match:
  "(n \<notin> name ` set (tasks a) \<longrightarrow> remove_task n a = (False, a)) \<and>
   (n \<in> name ` set (tasks a) \<longrightarrow>
      (\<exists>k<length (tasks a).
         name (tasks a ! k) = n \<and> (\<forall>j<k. name (tasks a ! j) \<noteq> n) \<and>
         remove_task n a = (True, a\<lparr>tasks := take k (tasks a) @ drop (Suc k) (tasks a)\<rparr>)))"
proof (intro conjI impI)
  assume "n \<notin> name ` set (tasks a)"
  then have "\<forall>j. 0 \<le> j \<and> j < length (tasks a) \<longrightarrow> name (tasks a ! j) \<noteq> n"
    by (auto simp: image_iff)
  then show "remove_task n a = (False, a)"
    unfolding remove_task_def by (rule remove_task_from_absent)
next
  assume "n \<in> name ` set (tasks a)"
  then obtain k where k: "k < length (tasks a)" "name (tasks a ! k) = n"
    "\<forall>j<k. name (tasks a ! j) \<noteq> n"
    using first_index by blast
  then have "remove_task_from 0 n a = (True, a\<lparr>tasks := pop k (tasks a)\<rparr>)"
    by (intro remove_task_from_first) simp_all
  with k show "\<exists>k<length (tasks a).
         name (tasks a ! k) = n \<and> (\<forall>j<k. name (tasks a ! j) \<noteq> n) \<and>
         remove_task n a = (True, a\<lparr>tasks := take k (tasks a) @ drop (Suc k) (tasks a)\<rparr>)"
    unfolding remove_task_def pop_def by blast
qed

theorem remove_task_first_match_witness:
  "remove_task ''z'' three_tasks = (False, three_tasks) \<and>
   fst (remove_task ''a'' three_tasks) = True \<and>
   map name (tasks (snd (remove_task ''a'' three_tasks))) = [''b'', ''a'']"
proof -
  have z: "''z'' \<notin> name ` set (tasks three_tasks)"
    by (simp add: three_tasks_def add_task_def Agent_def Task_def)
  have a: "''a'' \<in> name ` set (tasks three_tasks)"
    by (simp add: three_tasks_def add_task_def Agent_def Task_def)
  from remove_task_first_match [of "''z''" three_tasks] z
  have 1: "remove_task ''z'' three_tasks = (False, three_tasks)" by blast
  from remove_task_first_match [of "''a''" three_tasks] a
  obtain k where k: "k < length (tasks three_tasks)" "name (tasks three_tasks ! k) = ''a''"
    "\<forall>j<k. name (tasks three_tasks ! j) \<noteq> ''a''"
    "remove_task ''a'' three_tasks =
      (True, three_tasks\<lparr>tasks := take k (tasks three_tasks) @ drop (Suc k) (tasks three_tasks)\<rparr>)"
    by blast
  have "name (tasks three_tasks ! 0) = ''a''"
    by (simp add: three_tasks_def add_task_def Agent_def Task_def)
  with k(3) have "k = 0" by (cases k) auto
  with k(4) have 2: "remove_task ''a'' three_tasks = (True, three_tasks\<lparr>tasks := drop 1 (tasks three_tasks)\<rparr>)"
    by simp
  from 1 2 show ?thesis
    by (simp add: three_tasks_def add_task_def Agent_def Task_def)
qed


section \<open>Reading the status\<close>

text \<open>
  C7. \<^verbatim>\<open>get_task_status\<close> leaves the agent as it was and returns one dictionary per
  record, in the order of the registry, that holds the record's name, status, enabled
  flag, interval and run count, and for \<^verbatim>\<open>last_run\<close> either nothing or the rendering
  of the timestamp.
\<close>

theorem get_task_status_read_only:
  "snd (get_task_status E a) = a \<and>
   length (fst (get_task_status E a)) = length (tasks a) \<and>
   (\<forall>i<length (tasks a).
      snap_name (fst (get_task_status E a) ! i) = name (tasks a ! i) \<and>
      snap_status (fst (get_task_status E a) ! i) = status (tasks a ! i) \<and>
      snap_enabled (fst (get_task_status E a) ! i) = enabled (tasks a ! i) \<and>
      snap_interval (fst (get_task_status E a) ! i) = interval (tasks a ! i) \<and>
      snap_run_count (fst (get_task_status E a) ! i) = run_count (tasks a ! i) \<and>
      (last_run (tasks a ! i) = None \<longrightarrow> snap_last_run (fst (get_task_status E a) ! i) = None) \<and>
      (\<forall>l. last_run (tasks a ! i) = Some l \<longrightarrow>
         snap_last_run (fst (get_task_status E a) ! i) = (if l \<noteq> 0 then Some (isoformat E l) else None)) \<and>
      run_count (tasks (snd (get_task_status E a)) ! i) = run_count (tasks a ! i) \<and>
      last_run (tasks (snd (get_task_status E a)) ! i) = last_run (tasks a ! i) \<and>
      status (tasks (snd (get_task_status E a)) ! i) = status (tasks a ! i))"
  by (simp add: get_task_status_def task_snapshot_def)

theorem get_task_status_read_only_witness:
  "snd (get_task_status demo_env polled_agent) = polled_agent \<and>
   map snap_name (fst (get_task_status demo_env polled_agent)) = [''a'', ''b''] \<and>
   snap_run_count (fst (get_task_status demo_env polled_agent) ! 0) = 1 \<and>
   snap_last_run (fst (get_task_status demo_env polled_agent) ! 0) = Some ''T'' \<and>
   snap_last_run (fst (get_task_status demo_env polled_agent) ! 1) = None"
proof -
  note h = get_task_status_read_only [of demo_env polled_agent]
  have l: "length (tasks polled_agent) = 2"
    by (simp add: polled_agent_def)
  from h l have n: "length (fst (get_task_status demo_env polled_agent)) = 2"
    by simp
  from h l have 0: "snap_name (fst (get_task_status demo_env polled_agent) ! 0) = name (tasks polled_agent ! 0)"
    "snap_run_count (fst (get_task_status demo_env polled_agent) ! 0) = run_count (tasks polled_agent ! 0)"
    "\<forall>l. last_run (tasks polled_agent ! 0) = Some l \<longrightarrow>
       snap_last_run (fst (get_task_status demo_env polled_agent) ! 0) =
         (if l \<noteq> 0 then Some (isoformat demo_env l) else None)"
    by simp_all
  from h l have 1: "snap_name (fst (get_task_status demo_env polled_agent) ! 1) = name (tasks polled_agent ! 1)"
    "last_run (tasks polled_agent ! 1) = None \<longrightarrow>
       snap_last_run (fst (get_task_status demo_env polled_agent) ! 1) = None"
    by simp_all
  from n 0(1) 1(1) have names: "map snap_name (fst (get_task_status demo_env polled_agent)) =
      [name (tasks polled_agent ! 0), name (tasks polled_agent ! 1)]"
    by (auto simp: list_eq_iff_nth_eq less_Suc_eq numeral_2_eq_2)
  from h names 0 1 show ?thesis
    by (simp add: polled_agent_def Task_def demo_env_def)
qed

section \<open>One pass of run\_once\<close>










section \<open>The polling loop\<close>

lemma run_loop_exit_not_limit:
  assumes "run_loop E m i a w = Some y" and "m = None \<or> m = Some 0"
  shows "fst y \<noteq> LimitReached"
proof -
  from assms(1) have "(m = None \<or> m = Some 0) \<longrightarrow> fst y \<noteq> LimitReached"
    apply (rule run_loop.raw_induct [rotated,
          where P = "\<lambda>E m i a w y. (m = None \<or> m = Some 0) \<longrightarrow> fst y \<noteq> LimitReached"])
    apply (auto simp: limit_reached_def split: if_splits prod.splits option.splits)
    done
  with assms(2) show ?thesis by simp
qed

lemma run_loop_limit_irrelevant:
  assumes "run_loop E m i a w = Some y" and "m = None \<or> m = Some 0" and "m' = None \<or> m' = Some 0"
  shows "run_loop E m' i a w = Some y"
proof -
  from assms(1) have "(m = None \<or> m = Some 0) \<longrightarrow> run_loop E m' i a w = Some y"
  proof (rule run_loop.raw_induct [rotated,
          where P = "\<lambda>E m i a w y. (m = None \<or> m = Some 0) \<longrightarrow> run_loop E m' i a w = Some y"])
    fix loop :: "'a env \<Rightarrow> int option \<Rightarrow> int \<Rightarrow> 'a agent \<Rightarrow> 'a world \<Rightarrow> (exit \<times> 'a agent \<times> 'a world) option"
    fix E m i a w y
    assume IH: "\<And>E m i a w y. loop E m i a w = Some y \<Longrightarrow>
                  (m = None \<or> m = Some 0) \<longrightarrow> run_loop E m' i a w = Some y"
    assume body: "(if running w then
        (if limit_reached m i then Some (LimitReached, a, w)
         else
           (case run_sweep E (tasks a) w of
              (Some b, ts, w') \<Rightarrow> Some (Raised b, a\<lparr>tasks := ts\<rparr>, w')
            | (None, ts, w') \<Rightarrow>
                (case sleep E w' of
                   (Some b, w'') \<Rightarrow> Some (Raised b, a\<lparr>tasks := ts\<rparr>, w'')
                 | (None, w'') \<Rightarrow> loop E m (i + 1) (a\<lparr>tasks := ts\<rparr>) w'')))
      else Some (Stopped, a, w)) = Some y"
    show "(m = None \<or> m = Some 0) \<longrightarrow> run_loop E m' i a w = Some y"
    proof
      assume m: "m = None \<or> m = Some 0"
      with assms(3) have l: "\<not> limit_reached m i" "\<not> limit_reached m' i"
        by (auto simp: limit_reached_def)
      show "run_loop E m' i a w = Some y"
      proof (cases "running w")
        case False
        with body show ?thesis by (subst run_loop.simps) simp
      next
        case True
        obtain x ts w1 where sw: "run_sweep E (tasks a) w = (x, ts, w1)"
          by (cases "run_sweep E (tasks a) w") auto
        show ?thesis
        proof (cases x)
          case (Some b)
          with True l sw body show ?thesis by (subst run_loop.simps) simp
        next
          case None
          obtain z w2 where sl: "sleep E w1 = (z, w2)" by (cases "sleep E w1") auto
          show ?thesis
          proof (cases z)
            case (Some b)
            with None True l sw sl body show ?thesis by (subst run_loop.simps) simp
          next
            case n: None
            with None True l sw sl body
            have "loop E m (i + 1) (a\<lparr>tasks := ts\<rparr>) w2 = Some y" by simp
            from IH [OF this] m
            have "run_loop E m' (i + 1) (a\<lparr>tasks := ts\<rparr>) w2 = Some y" by simp
            with n None True l sw sl show ?thesis by (subst run_loop.simps) simp
          qed
        qed
      qed
    qed
  qed
  with assms(2) show ?thesis by simp
qed

lemma run_loop_zero_is_none: "run_loop E (Some 0) i a w = run_loop E None i a w"
proof (cases "run_loop E (Some 0) i a w")
  case None
  show ?thesis
  proof (cases "run_loop E None i a w")
    case n: None
    with None show ?thesis by simp
  next
    case (Some y)
    from run_loop_limit_irrelevant [OF Some, of "Some 0"] None show ?thesis by simp
  qed
next
  case (Some y)
  from run_loop_limit_irrelevant [OF Some, of None] Some show ?thesis by simp
qed

lemma run_sweep_actions: "run_sweep E ts w = (x, ts', w') \<Longrightarrow> map action ts' = map action ts"
proof (induction ts arbitrary: w x ts' w')
  case Nil
  then show ?case by simp
next
  case (Cons t ts)
  have "action (fst (snd (execute E t w))) = action t"
    by (cases t w rule: action_cases) (simp_all add: execute_outcome)
  with Cons show ?case
    by (fastforce split: if_splits prod.splits sum.splits)
qed

lemma run_sweep_quiet:
  assumes "\<forall>t\<in>set ts. \<forall>w. running w \<longrightarrow> (\<forall>b. fst (action t w) \<noteq> Signals b) \<and> running (snd (action t w))"
    and "running w"
  shows "fst (run_sweep E ts w) = None \<and> running (snd (snd (run_sweep E ts w)))"
  using assms
proof (induction ts arbitrary: w)
  case Nil
  then show ?case by simp
next
  case (Cons t ts)
  from Cons.prems have q: "\<forall>b. fst (action t w) \<noteq> Signals b" "running (snd (action t w))" by simp_all
  from Cons.prems have all: "\<forall>t\<in>set ts. \<forall>w. running w \<longrightarrow> (\<forall>b. fst (action t w) \<noteq> Signals b) \<and> running (snd (action t w))"
    by simp
  from q(1) obtain r t' where e: "execute E t w = (Inr r, t', snd (action t w))"
    by (cases t w rule: action_cases) (auto simp: execute_outcome)
  from Cons.IH [OF all q(2)] Cons.IH [OF all Cons.prems(2)] e show ?case
    by (auto split: prod.splits)
qed


lemma run_loop_undisturbed:
  assumes "run_loop E m i a w = Some y"
  shows "\<not> ((m = None \<or> m = Some 0) \<and> running w \<and>
            (\<forall>t\<in>set (tasks a). \<forall>w. running w \<longrightarrow>
               (\<forall>b. fst (action t w) \<noteq> Signals b) \<and> running (snd (action t w))) \<and>
            (\<forall>w. running w \<longrightarrow> fst (sleep E w) = None \<and> running (snd (sleep E w))))"
  using assms
proof (rule run_loop.raw_induct [rotated,
          where P = "\<lambda>E m i a w y. \<not> ((m = None \<or> m = Some 0) \<and> running w \<and>
            (\<forall>t\<in>set (tasks a). \<forall>w. running w \<longrightarrow>
               (\<forall>b. fst (action t w) \<noteq> Signals b) \<and> running (snd (action t w))) \<and>
            (\<forall>w. running w \<longrightarrow> fst (sleep E w) = None \<and> running (snd (sleep E w))))"])
  fix loop :: "'a env \<Rightarrow> int option \<Rightarrow> int \<Rightarrow> 'a agent \<Rightarrow> 'a world \<Rightarrow> (exit \<times> 'a agent \<times> 'a world) option"
  fix E m i a w y
  assume IH: "\<And>E m i a w y. loop E m i a w = Some y \<Longrightarrow>
      \<not> ((m = None \<or> m = Some 0) \<and> running w \<and>
            (\<forall>t\<in>set (tasks a). \<forall>w. running w \<longrightarrow>
               (\<forall>b. fst (action t w) \<noteq> Signals b) \<and> running (snd (action t w))) \<and>
            (\<forall>w. running w \<longrightarrow> fst (sleep E w) = None \<and> running (snd (sleep E w))))"
  assume body: "(if running w then
        (if limit_reached m i then Some (LimitReached, a, w)
         else
           (case run_sweep E (tasks a) w of
              (Some b, ts, w') \<Rightarrow> Some (Raised b, a\<lparr>tasks := ts\<rparr>, w')
            | (None, ts, w') \<Rightarrow>
                (case sleep E w' of
                   (Some b, w'') \<Rightarrow> Some (Raised b, a\<lparr>tasks := ts\<rparr>, w'')
                 | (None, w'') \<Rightarrow> loop E m (i + 1) (a\<lparr>tasks := ts\<rparr>) w'')))
      else Some (Stopped, a, w)) = Some y"
  show "\<not> ((m = None \<or> m = Some 0) \<and> running w \<and>
            (\<forall>t\<in>set (tasks a). \<forall>w. running w \<longrightarrow>
               (\<forall>b. fst (action t w) \<noteq> Signals b) \<and> running (snd (action t w))) \<and>
            (\<forall>w. running w \<longrightarrow> fst (sleep E w) = None \<and> running (snd (sleep E w))))"
  proof (intro notI, elim conjE)
    assume m: "m = None \<or> m = Some 0" and r: "running w"
      and qa: "\<forall>t\<in>set (tasks a). \<forall>w. running w \<longrightarrow>
               (\<forall>b. fst (action t w) \<noteq> Signals b) \<and> running (snd (action t w))"
      and qs: "\<forall>w. running w \<longrightarrow> fst (sleep E w) = None \<and> running (snd (sleep E w))"
    from m have l: "\<not> limit_reached m i" by (auto simp: limit_reached_def)
    obtain x ts w1 where sw: "run_sweep E (tasks a) w = (x, ts, w1)"
      by (cases "run_sweep E (tasks a) w") auto
    from run_sweep_quiet [OF qa r, of E] sw have x: "x = None" and r1: "running w1" by simp_all
    obtain z w2 where sl: "sleep E w1 = (z, w2)" by (cases "sleep E w1") auto
    from qs r1 sl have z: "z = None" and r2: "running w2" by auto
    from body r l sw x sl z have "loop E m (i + 1) (a\<lparr>tasks := ts\<rparr>) w2 = Some y" by simp
    from IH [OF this] m r2 qs
    have "\<not> (\<forall>t\<in>set ts. \<forall>w. running w \<longrightarrow>
               (\<forall>b. fst (action t w) \<noteq> Signals b) \<and> running (snd (action t w)))"
      by simp
    moreover from run_sweep_actions [OF sw] have "action ` set ts = action ` set (tasks a)"
      by (metis set_map)
    with qa have "\<forall>t\<in>set ts. \<forall>w. running w \<longrightarrow>
               (\<forall>b. fst (action t w) \<noteq> Signals b) \<and> running (snd (action t w))"
      by (metis (no_types, lifting) imageE imageI)
    ultimately show False by contradiction
  qed
qed

lemma run_one_iteration:
  "run E (Some 1) a w =
     Some (case run_sweep E (tasks a) (w\<lparr>running := True\<rparr>) of
             (Some b, ts, w1) \<Rightarrow> (Raised b, a\<lparr>tasks := ts\<rparr>, w1\<lparr>running := False\<rparr>)
           | (None, ts, w1) \<Rightarrow>
               (case sleep E w1 of
                  (Some b, w2) \<Rightarrow> (Raised b, a\<lparr>tasks := ts\<rparr>, w2\<lparr>running := False\<rparr>)
                | (None, w2) \<Rightarrow>
                    (if running w2 then LimitReached else Stopped,
                     a\<lparr>tasks := ts\<rparr>, w2\<lparr>running := False\<rparr>)))"
proof -
  have second: "run_loop E (Some 1) 1 b v =
      Some (if running v then LimitReached else Stopped, b, v)" for b v
    by (subst run_loop.simps) (simp add: limit_reached_def)
  show ?thesis
    unfolding run_def
    by (subst run_loop.simps) (simp add: second limit_reached_def split: prod.splits option.splits)
qed

lemma run_clears_flag: "run E m a w = Some (x, a', w') \<Longrightarrow> \<not> running w'"
  by (auto simp: run_def split: option.splits)

lemma run_loop_stopped: "\<not> running v \<Longrightarrow> run_loop E m i c v = Some (Stopped, c, v)"
  by (subst run_loop.simps) simp

lemma run_zero_not_limit: "run E (Some 0) a w \<noteq> Some (LimitReached, a', w')"
proof
  assume "run E (Some 0) a w = Some (LimitReached, a', w')"
  then obtain v where "run_loop E (Some 0) 0 a (w\<lparr>running := True\<rparr>) = Some (LimitReached, a', v)"
    by (auto simp: run_def split: option.splits)
  from run_loop_exit_not_limit [OF this] show False by simp
qed

text \<open>
  C5. \<^verbatim>\<open>run(max_iterations=1)\<close> ends, and what it leaves is the outcome of one sweep
  followed, when no exception left the sweep, by one sleep: the second test of the loop
  condition leaves the loop for good. Whatever the limit is and however the loop was left,
  \<^verbatim>\<open>running\<close> is false once \<^verbatim>\<open>run\<close> is over.
\<close>

theorem run_once_around_and_cleanup:
  "run E (Some 1) a w =
     Some (case run_sweep E (tasks a) (w\<lparr>running := True\<rparr>) of
             (Some b, ts, w1) \<Rightarrow> (Raised b, a\<lparr>tasks := ts\<rparr>, w1\<lparr>running := False\<rparr>)
           | (None, ts, w1) \<Rightarrow>
               (case sleep E w1 of
                  (Some b, w2) \<Rightarrow> (Raised b, a\<lparr>tasks := ts\<rparr>, w2\<lparr>running := False\<rparr>)
                | (None, w2) \<Rightarrow>
                    (if running w2 then LimitReached else Stopped,
                     a\<lparr>tasks := ts\<rparr>, w2\<lparr>running := False\<rparr>))) \<and>
   (run E m c v = Some (x, c', v') \<longrightarrow> \<not> running v')"
  using run_one_iteration [of E a w] run_clears_flag [of E m c v x c' v'] by blast

theorem run_once_around_and_cleanup_witness:
  "run demo_env (Some 1) counter_agent w0 =
      Some (LimitReached,
        \<lparr>agent_name = ''TestAgent'',
         tasks = [\<lparr>name = ''counter'', action = succeeds, interval = 0, enabled = True,
                   last_run = Some 100, run_count = 1, status = ''completed''\<rparr>]\<rparr>,
        \<lparr>clock = 101, running = False, ext = ()\<rparr>) \<and>
   run demo_env (Some 1) stopper_agent w0 =
      Some (Stopped,
        \<lparr>agent_name = ''TestAgent'',
         tasks = [\<lparr>name = ''stopper'', action = stops, interval = 0, enabled = True,
                   last_run = Some 100, run_count = 1, status = ''completed''\<rparr>]\<rparr>,
        \<lparr>clock = 101, running = False, ext = ()\<rparr>) \<and>
   run interrupted_env (Some 1) counter_agent w0 =
      Some (Raised KeyboardInterrupt,
        \<lparr>agent_name = ''TestAgent'',
         tasks = [\<lparr>name = ''counter'', action = succeeds, interval = 0, enabled = True,
                   last_run = Some 100, run_count = 1, status = ''completed''\<rparr>]\<rparr>,
        \<lparr>clock = 100, running = False, ext = ()\<rparr>) \<and>
   \<not> running (snd (snd (the (run demo_env (Some 1) counter_agent w0)))) \<and>
   \<not> running (snd (snd (the (run demo_env (Some 1) stopper_agent w0)))) \<and>
   \<not> running (snd (snd (the (run interrupted_env (Some 1) counter_agent w0))))"
proof -
  note one = run_once_around_and_cleanup [THEN conjunct1]
  note off = run_once_around_and_cleanup [THEN conjunct2, THEN mp]
  have e1: "run demo_env (Some 1) counter_agent w0 =
      Some (LimitReached,
        \<lparr>agent_name = ''TestAgent'',
         tasks = [\<lparr>name = ''counter'', action = succeeds, interval = 0, enabled = True,
                   last_run = Some 100, run_count = 1, status = ''completed''\<rparr>]\<rparr>,
        \<lparr>clock = 101, running = False, ext = ()\<rparr>)"
    by (simp add: one counter_agent_def add_task_def Agent_def Task_def should_run_def
          execute_def succeeds_def demo_env_def w0_def)
  have e2: "run demo_env (Some 1) stopper_agent w0 =
      Some (Stopped,
        \<lparr>agent_name = ''TestAgent'',
         tasks = [\<lparr>name = ''stopper'', action = stops, interval = 0, enabled = True,
                   last_run = Some 100, run_count = 1, status = ''completed''\<rparr>]\<rparr>,
        \<lparr>clock = 101, running = False, ext = ()\<rparr>)"
    by (simp add: one stopper_agent_def add_task_def Agent_def Task_def should_run_def
          execute_def stops_def stop_def demo_env_def w0_def)
  have e3: "run interrupted_env (Some 1) counter_agent w0 =
      Some (Raised KeyboardInterrupt,
        \<lparr>agent_name = ''TestAgent'',
         tasks = [\<lparr>name = ''counter'', action = succeeds, interval = 0, enabled = True,
                   last_run = Some 100, run_count = 1, status = ''completed''\<rparr>]\<rparr>,
        \<lparr>clock = 100, running = False, ext = ()\<rparr>)"
    by (simp add: one counter_agent_def add_task_def Agent_def Task_def should_run_def
          execute_def succeeds_def interrupted_env_def w0_def)
  from off [OF e1] off [OF e2] off [OF e3] e1 e2 e3 show ?thesis
    by simp
qed

text \<open>
  C8. A limit of \<open>0\<close> is no limit: \<^verbatim>\<open>run(max_iterations=0)\<close> does what
  \<^verbatim>\<open>run()\<close> does, and it never leaves the loop through the test of the limit. When no
  action and no sleep raises a \<^verbatim>\<open>BaseException\<close> or clears \<^verbatim>\<open>running\<close>, it does not
  return.
\<close>

theorem run_zero_limit_is_no_limit:
  "run E (Some 0) a w = run E None a w \<and>
   (\<forall>a' w'. run E (Some 0) a w \<noteq> Some (LimitReached, a', w')) \<and>
   ((\<forall>t\<in>set (tasks a). \<forall>v. running v \<longrightarrow>
        (\<forall>b. fst (action t v) \<noteq> Signals b) \<and> running (snd (action t v))) \<and>
    (\<forall>v. running v \<longrightarrow> fst (sleep E v) = None \<and> running (snd (sleep E v))) \<longrightarrow>
      run E (Some 0) a w = None)"
proof (intro conjI impI allI)
  show "run E (Some 0) a w = run E None a w"
    by (simp add: run_def run_loop_zero_is_none)
next
  fix a' w'
  show "run E (Some 0) a w \<noteq> Some (LimitReached, a', w')"
    by (rule run_zero_not_limit)
next
  assume q: "(\<forall>t\<in>set (tasks a). \<forall>v. running v \<longrightarrow>
        (\<forall>b. fst (action t v) \<noteq> Signals b) \<and> running (snd (action t v))) \<and>
    (\<forall>v. running v \<longrightarrow> fst (sleep E v) = None \<and> running (snd (sleep E v)))"
  have "run_loop E (Some 0) 0 a (w\<lparr>running := True\<rparr>) = None"
  proof (cases "run_loop E (Some 0) 0 a (w\<lparr>running := True\<rparr>)")
    case None
    then show ?thesis .
  next
    case (Some y)
    from run_loop_undisturbed [OF Some] q show ?thesis by simp
  qed
  then show "run E (Some 0) a w = None"
    by (simp add: run_def)
qed

theorem run_zero_limit_is_no_limit_witness:
  "run demo_env (Some 0) counter_agent w0 = None \<and>
   run demo_env None counter_agent w0 = None \<and>
   run demo_env (Some 0) stopper_agent w0 =
      Some (Stopped,
        \<lparr>agent_name = ''TestAgent'',
         tasks = [\<lparr>name = ''stopper'', action = stops, interval = 0, enabled = True,
                   last_run = Some 100, run_count = 1, status = ''completed''\<rparr>]\<rparr>,
        \<lparr>clock = 101, running = False, ext = ()\<rparr>)"
proof -
  have q: "(\<forall>t\<in>set (tasks counter_agent). \<forall>v. running v \<longrightarrow>
        (\<forall>b. fst (action t v) \<noteq> Signals b) \<and> running (snd (action t v))) \<and>
    (\<forall>v. running v \<longrightarrow> fst (sleep demo_env v) = None \<and> running (snd (sleep demo_env v)))"
    by (simp add: counter_agent_def add_task_def Agent_def Task_def succeeds_def demo_env_def)
  note h = run_zero_limit_is_no_limit [where E = demo_env and a = counter_agent and w = w0]
  from h [THEN conjunct2, THEN conjunct2, THEN mp, OF q]
  have n: "run demo_env (Some 0) counter_agent w0 = None" .
  with h [THEN conjunct1] have m: "run demo_env None counter_agent w0 = None"
    by simp
  have s: "run demo_env (Some 0) stopper_agent w0 =
      Some (Stopped,
        \<lparr>agent_name = ''TestAgent'',
         tasks = [\<lparr>name = ''stopper'', action = stops, interval = 0, enabled = True,
                   last_run = Some 100, run_count = 1, status = ''completed''\<rparr>]\<rparr>,
        \<lparr>clock = 101, running = False, ext = ()\<rparr>)"
    unfolding run_def
    by (subst run_loop.simps)
      (simp add: run_loop_stopped limit_reached_def stopper_agent_def add_task_def Agent_def
        Task_def should_run_def execute_def stops_def stop_def demo_env_def w0_def)
  from n m s show ?thesis by simp
qed

end
